theory Spec2Isabelle
  imports Main "HOL-Library.AList" "HOL-Library.Product_Lexorder"
begin

section \<open>TGE day-ahead market scraper (src/tge\_scraper.py)\<close>

text \<open>
  A shallow embedding of \<^verbatim>\<open>tge_scraper.py\<close>. Python strings are byte lists (UTF-8), Python
  dictionaries are association lists in insertion order, \<^verbatim>\<open>None\<close> is \<open>None\<close>, and the
  libraries the script calls (requests, BeautifulSoup, pandas, the clock) are modelled by the
  values they hand back to the script. Console output is not modelled.
\<close>

subsection \<open>Strings\<close>

text \<open>The letters of the column names that lie outside ASCII, as their UTF-8 bytes.\<close>

definition a_ogonek :: string where
  "a_ogonek = [CHR 0xC4, CHR 0x85]"

definition l_stroke :: string where
  "l_stroke = [CHR 0xC5, CHR 0x82]"

definition L_stroke :: string where
  "L_stroke = [CHR 0xC5, CHR 0x81]"

definition z_dot :: string where
  "z_dot = [CHR 0xC5, CHR 0xBC]"

definition s_acute :: string where
  "s_acute = [CHR 0xC5, CHR 0x9B]"

definition digit_char :: "nat \<Rightarrow> char" where
  "digit_char d = char_of (48 + d)"

text \<open>\<^verbatim>\<open>str(n)\<close> for a non-negative integer: its decimal digits.\<close>

function str_nat :: "nat \<Rightarrow> string" where
  "str_nat n = (if n < 10 then [digit_char n] else str_nat (n div 10) @ [digit_char (n mod 10)])"
  by pat_completeness auto
termination
  by (relation "measure (\<lambda>n. n)") auto

declare str_nat.simps [simp del]

subsection \<open>The positional column table\<close>

text \<open>\<^verbatim>\<open>COLUMN_MAPPING\<close>, lines 41-59: a dictionary from cell position to column name.\<close>

definition COLUMN_MAPPING :: "(nat \<times> string) list" where
  "COLUMN_MAPPING =
    [(0, ''Instrument''),
     (1, ''Typ instrumentu''),
     (2, ''Fixing I - Kurs [PLN/MWh]''),
     (3, ''Fixing I - Wolumen [MW]''),
     (4, ''Fixing II - Kurs jednolity [PLN/MWh]''),
     (5, ''Fixing II - Wolumen [MW]''),
     (6, ''Notowania ci'' @ a_ogonek @ ''g'' @ l_stroke @ ''e - Kurs jednolity [EUR/MWh]''),
     (7, ''Notowania ci'' @ a_ogonek @ ''g'' @ l_stroke @ ''e - Kurs jednolity [PLN/MWh]''),
     (8, ''Notowania ci'' @ a_ogonek @ ''g'' @ l_stroke @ ''e - Wolumen [MW]''),
     (9, ''Notowania ci'' @ a_ogonek @ ''g'' @ l_stroke @ ''e - Wolumen kupna [MW]''),
     (10, ''Notowania ci'' @ a_ogonek @ ''g'' @ l_stroke @ ''e - Wolumen sprzeda'' @ z_dot @ ''y [MW]''),
     (11, L_stroke @ a_ogonek @ ''cznie - Kurs min. [PLN/MWh]''),
     (12, L_stroke @ a_ogonek @ ''cznie - Kurs max. [PLN/MWh]''),
     (13, L_stroke @ a_ogonek @ ''cznie - Kurs '' @ s_acute @ ''redniowa'' @ z_dot @ ''ony [PLN/MWh]''),
     (14, L_stroke @ a_ogonek @ ''cznie - Wolumen [MWh]''),
     (15, L_stroke @ a_ogonek @ ''cznie - Wolumen kupna [MWh]''),
     (16, L_stroke @ a_ogonek @ ''cznie - Wolumen sprzeda'' @ z_dot @ ''y [MWh]'')]"

subsection \<open>The parsed page\<close>

text \<open>
  What BeautifulSoup hands back: a \<^verbatim>\<open>td\<close> cell with its two optional attributes and the
  result of \<^verbatim>\<open>get_text(strip=True)\<close>; a \<^verbatim>\<open>tr\<close> as the list \<^verbatim>\<open>tr.find_all('td')\<close>; a table
  as the result of \<^verbatim>\<open>table.find('tbody')\<close> with its rows \<^verbatim>\<open>tbody.find_all('tr')\<close>; the page as
  the result of \<^verbatim>\<open>soup.find('table', {'id': 'rdn'})\<close>.
\<close>

record cell =
  data_title :: "string option"
  data_label :: "string option"
  get_text :: string

datatype table = Table (tbody: "cell list list option")

datatype soup = Soup (find_table: "table option")

text \<open>A row dictionary, in insertion order. Assignment keeps the place of a key that exists.\<close>

type_synonym row_dict = "(string \<times> string) list"

text \<open>Truth value of an attribute value: \<^verbatim>\<open>None\<close> and the empty string are false.\<close>

definition truthy :: "string option \<Rightarrow> bool" where
  "truthy v = (case v of None \<Rightarrow> False | Some s \<Rightarrow> s \<noteq> [])"

definition py_or :: "string option \<Rightarrow> string option \<Rightarrow> string option" where
  "py_or a b = (if truthy a then a else b)"

text \<open>Lines 120-122: the name of the field a cell at position \<open>idx\<close> fills.\<close>

definition col_name :: "nat \<Rightarrow> cell \<Rightarrow> string" where
  "col_name idx c =
     (case py_or (data_title c) (data_label c) of
        Some s \<Rightarrow>
          if s \<noteq> [] then s
          else (case map_of COLUMN_MAPPING idx of
                  Some n \<Rightarrow> n
                | None \<Rightarrow> ''Kolumna_'' @ str_nat (idx + 1))
      | None \<Rightarrow>
          (case map_of COLUMN_MAPPING idx of
             Some n \<Rightarrow> n
           | None \<Rightarrow> ''Kolumna_'' @ str_nat (idx + 1)))"

text \<open>Lines 119-123: the loop over \<^verbatim>\<open>enumerate(cells)\<close>, from position \<open>idx\<close> on.\<close>

fun fill_row :: "nat \<Rightarrow> cell list \<Rightarrow> row_dict \<Rightarrow> row_dict" where
  "fill_row idx [] d = d"
| "fill_row idx (c # cs) d = fill_row (Suc idx) cs (AList.update (col_name idx c) (get_text c) d)"

text \<open>Lines 115-124: the loop over the rows of the body; a row without cells adds nothing.\<close>

fun tbody_rows :: "cell list list \<Rightarrow> row_dict list" where
  "tbody_rows [] = []"
| "tbody_rows (cells # trs) =
     (if cells \<noteq> [] then fill_row 0 cells [] # tbody_rows trs else tbody_rows trs)"

subsection \<open>Data frames\<close>

text \<open>
  A pandas data frame of strings: the column labels, and the rows, each with one value per
  column; \<open>None\<close> is the missing value (NaN). The index is not modelled: the script never
  reads it.
\<close>

record dataframe =
  columns :: "string list"
  data :: "string option list list"

text \<open>The keys of a list of dictionaries, each once, in the order they first appear.\<close>

fun first_seen :: "string list \<Rightarrow> string list \<Rightarrow> string list" where
  "first_seen acc [] = acc"
| "first_seen acc (k # ks) = (if k \<in> set acc then first_seen acc ks else first_seen (acc @ [k]) ks)"

text \<open>\<^verbatim>\<open>pd.DataFrame(rows)\<close> for a list of dictionaries.\<close>

definition frame_row :: "string list \<Rightarrow> row_dict \<Rightarrow> string option list" where
  "frame_row cols r = map (map_of r) cols"

definition DataFrame :: "row_dict list \<Rightarrow> dataframe" where
  "DataFrame rows =
     (let cols = first_seen [] (concat (map (map fst) rows))
      in \<lparr>columns = cols, data = map (frame_row cols) rows\<rparr>)"

text \<open>\<^verbatim>\<open>df[col]\<close> for a column that exists: its value in every row.\<close>

definition series :: "dataframe \<Rightarrow> string \<Rightarrow> string option list" where
  "series df col =
     map (\<lambda>r. case map_of (zip (columns df) r) col of Some v \<Rightarrow> v | None \<Rightarrow> None) (data df)"

text \<open>\<^verbatim>\<open>df[mask]\<close>: the rows whose mask entry is true, in order.\<close>

definition select_rows :: "dataframe \<Rightarrow> bool list \<Rightarrow> dataframe" where
  "select_rows df keep = df\<lparr>data := map snd (filter fst (zip keep (data df)))\<rparr>"

text \<open>\<^verbatim>\<open>df.empty\<close>: no rows or no columns.\<close>

definition empty_frame :: "dataframe \<Rightarrow> bool" where
  "empty_frame df = (data df = [] \<or> columns df = [])"

subsection \<open>One page, after a successful request\<close>

text \<open>
  Lines 105-150 without the retry decision: what the page yields. \<open>TableNotFound\<close> is the
  branch of line 106; \<open>Returned r\<close> is a \<^verbatim>\<open>return r\<close>.
\<close>

datatype page_outcome = TableNotFound | Returned "dataframe option"

definition filter_frame :: "dataframe \<Rightarrow> dataframe option" where
  "filter_frame df =
     (if ''Typ instrumentu'' \<in> set (columns df) then
        (let instrument_col = ''Typ instrumentu'' in
         if instrument_col \<noteq> [] then
           Some (select_rows df (map (\<lambda>v. v = Some ''60'') (series df instrument_col)))
         else Some df)
      else Some df)"

definition page_rows :: "table \<Rightarrow> row_dict list" where
  "page_rows t = (case tbody t of None \<Rightarrow> [] | Some trs \<Rightarrow> tbody_rows trs)"

definition process_page :: "soup \<Rightarrow> page_outcome" where
  "process_page s =
     (case find_table s of
        None \<Rightarrow> TableNotFound
      | Some t \<Rightarrow>
          (let rows = page_rows t in
           if rows = [] then Returned None
           else Returned (filter_frame (DataFrame rows))))"

subsection \<open>Dates\<close>

text \<open>
  A \<^verbatim>\<open>datetime\<close> value, and the part of the standard library that lines 22-39 use. Python
  keeps \<open>1 \<le> year \<le> 9999\<close> and raises where a value would leave that range.
\<close>

datatype exn = ImportError | LibraryError | ValueError | OverflowError

record datetime =
  year :: nat
  month :: nat
  day :: nat
  hour :: nat
  minute :: nat
  second :: nat
  microsecond :: nat

definition is_leap :: "nat \<Rightarrow> bool" where
  "is_leap y = (y mod 4 = 0 \<and> (y mod 100 \<noteq> 0 \<or> y mod 400 = 0))"

definition days_in_month :: "nat \<Rightarrow> nat \<Rightarrow> nat" where
  "days_in_month y m =
     (if m = 2 then (if is_leap y then 29 else 28)
      else if m = 4 \<or> m = 6 \<or> m = 9 \<or> m = 11 then 30 else 31)"

definition valid_date :: "nat \<Rightarrow> nat \<Rightarrow> nat \<Rightarrow> bool" where
  "valid_date y m d = (1 \<le> y \<and> y \<le> 9999 \<and> 1 \<le> m \<and> m \<le> 12 \<and> 1 \<le> d \<and> d \<le> days_in_month y m)"

definition valid_datetime :: "datetime \<Rightarrow> bool" where
  "valid_datetime t =
     (valid_date (year t) (month t) (day t) \<and> hour t < 24 \<and> minute t < 60 \<and> second t < 60
      \<and> microsecond t < 1000000)"

text \<open>The constructor \<^verbatim>\<open>datetime(y, m, d, h, mi, s)\<close>: ValueError outside the ranges.\<close>

definition mk_datetime :: "nat \<Rightarrow> nat \<Rightarrow> nat \<Rightarrow> nat \<Rightarrow> nat \<Rightarrow> nat \<Rightarrow> exn + datetime" where
  "mk_datetime y m d h mi s =
     (let t = \<lparr>year = y, month = m, day = d, hour = h, minute = mi, second = s, microsecond = 0\<rparr>
      in if valid_datetime t then Inr t else Inl ValueError)"

text \<open>Comparison of two naive datetimes: field by field, the year first.\<close>

definition dt_key :: "datetime \<Rightarrow> nat \<times> nat \<times> nat \<times> nat \<times> nat \<times> nat \<times> nat" where
  "dt_key t = (year t, month t, day t, hour t, minute t, second t, microsecond t)"

definition dt_le :: "datetime \<Rightarrow> datetime \<Rightarrow> bool" where
  "dt_le a b = (dt_key a \<le> dt_key b)"

definition dt_less :: "datetime \<Rightarrow> datetime \<Rightarrow> bool" where
  "dt_less a b = (dt_key a < dt_key b)"

text \<open>The proleptic Gregorian ordinal of a date (1 January of year 1 is day 1), and the day
  of the week with Monday as 0, as \<^verbatim>\<open>calendar.weekday\<close> gives it.\<close>

definition days_before_year :: "nat \<Rightarrow> nat" where
  "days_before_year y = (y - 1) * 365 + (y - 1) div 4 - (y - 1) div 100 + (y - 1) div 400"

definition days_before_month :: "nat \<Rightarrow> nat \<Rightarrow> nat" where
  "days_before_month y m = sum_list (map (days_in_month y) [1..<m])"

definition ymd2ord :: "nat \<Rightarrow> nat \<Rightarrow> nat \<Rightarrow> nat" where
  "ymd2ord y m d = days_before_year y + days_before_month y m + d"

definition weekday :: "nat \<Rightarrow> nat \<Rightarrow> nat \<Rightarrow> nat" where
  "weekday y m d = (ymd2ord y m d + 6) mod 7"

text \<open>\<^verbatim>\<open>calendar.monthcalendar(year, month)\<close> with Monday as the first day of the week: the
  days of the month in weeks of seven, 0 where a day lies outside the month.\<close>

definition monthrange :: "nat \<Rightarrow> nat \<Rightarrow> nat \<times> nat" where
  "monthrange y m = (weekday y m 1, days_in_month y m)"

definition month_days :: "nat \<Rightarrow> nat \<Rightarrow> nat list" where
  "month_days day1 ndays =
     replicate (day1 mod 7) 0 @ [1..<ndays + 1] @ replicate ((7 - (day1 + ndays) mod 7) mod 7) 0"

definition itermonthdays :: "nat \<Rightarrow> nat \<Rightarrow> nat list" where
  "itermonthdays y m = (case monthrange y m of (day1, ndays) \<Rightarrow> month_days day1 ndays)"

fun weeks_of :: "nat \<Rightarrow> nat list \<Rightarrow> nat list list" where
  "weeks_of 0 ds = []"
| "weeks_of (Suc n) ds = take 7 ds # weeks_of n (drop 7 ds)"

definition monthcalendar :: "nat \<Rightarrow> nat \<Rightarrow> nat list list" where
  "monthcalendar y m = (let ds = itermonthdays y m in weeks_of ((length ds + 6) div 7) ds)"

text \<open>\<^verbatim>\<open>max\<close> of a sequence: ValueError when it is empty.\<close>

definition py_max :: "nat list \<Rightarrow> exn + nat" where
  "py_max xs = (case xs of [] \<Rightarrow> Inl ValueError | x # ys \<Rightarrow> Inr (fold max ys x))"

text \<open>Lines 26-27: \<^verbatim>\<open>max(week[-1] for week in calendar.monthcalendar(year, m))\<close>.\<close>

definition last_sunday :: "nat \<Rightarrow> nat \<Rightarrow> exn + nat" where
  "last_sunday y m = py_max (map last (monthcalendar y m))"

text \<open>The date after a date; OverflowError after 31 December 9999.\<close>

definition next_day :: "nat \<times> nat \<times> nat \<Rightarrow> exn + nat \<times> nat \<times> nat" where
  "next_day ymd =
     (case ymd of (y, m, d) \<Rightarrow>
        if d < days_in_month y m then Inr (y, m, d + 1)
        else if m < 12 then Inr (y, m + 1, 1)
        else if y < 9999 then Inr (y + 1, 1, 1)
        else Inl OverflowError)"

text \<open>\<^verbatim>\<open>t + timedelta(hours=k)\<close> for \<open>k \<le> 24\<close>.\<close>

definition add_hours :: "datetime \<Rightarrow> nat \<Rightarrow> exn + datetime" where
  "add_hours t k =
     (if hour t + k < 24 then Inr (t\<lparr>hour := hour t + k\<rparr>)
      else (case next_day (year t, month t, day t) of
              Inl e \<Rightarrow> Inl e
            | Inr (y, m, d) \<Rightarrow> Inr (t\<lparr>year := y, month := m, day := d, hour := hour t + k - 24\<rparr>)))"

definition pad2 :: "nat \<Rightarrow> string" where
  "pad2 n = (if n < 10 then CHR ''0'' # str_nat n else str_nat n)"

text \<open>\<^verbatim>\<open>strftime("%d-%m-%Y")\<close>; the year is written without padding, as the C library does.\<close>

definition strftime_dmy :: "datetime \<Rightarrow> string" where
  "strftime_dmy t = pad2 (day t) @ ''-'' @ pad2 (month t) @ ''-'' @ str_nat (year t)"

text \<open>A string of the form DD-MM-YYYY that names a day of the calendar.\<close>

definition is_digit :: "char \<Rightarrow> bool" where
  "is_digit c = (48 \<le> (of_char c :: nat) \<and> (of_char c :: nat) \<le> 57)"

definition digit_val :: "char \<Rightarrow> nat" where
  "digit_val c = of_char c - 48"

definition digits_val :: "string \<Rightarrow> nat" where
  "digits_val s = foldl (\<lambda>a c. 10 * a + digit_val c) 0 s"

definition is_ddmmyyyy :: "string \<Rightarrow> bool" where
  "is_ddmmyyyy s =
     (length s = 10 \<and> s ! 2 = CHR ''-'' \<and> s ! 5 = CHR ''-''
      \<and> list_all is_digit (take 2 s) \<and> list_all is_digit (take 2 (drop 3 s))
      \<and> list_all is_digit (drop 6 s)
      \<and> valid_date (digits_val (drop 6 s)) (digits_val (take 2 (drop 3 s))) (digits_val (take 2 s)))"

subsection \<open>The environment of one run\<close>

text \<open>
  What the script receives from outside. \<open>zoneinfo_now\<close> is the outcome of lines 14-15 and
  \<open>pytz_now\<close> that of lines 18-20: the current Warsaw time, or the exception raised
  (\<open>ImportError\<close> when the library is not installed). \<open>utcnow\<close> is the clock. \<open>http url n\<close> is
  the outcome of lines 100-103 for request number \<open>n\<close> of this run.
\<close>

datatype response = RequestException | OtherException | Page soup

record env =
  zoneinfo_now :: "exn + datetime"
  pytz_now :: "exn + datetime"
  utcnow :: datetime
  http :: "string \<Rightarrow> nat \<Rightarrow> response"

text \<open>Lines 22-37: the offset computed by hand from the last Sundays of March and October.\<close>

definition manual_polish_time :: "datetime \<Rightarrow> exn + datetime" where
  "manual_polish_time utc_now =
     (case last_sunday (year utc_now) 3 of
        Inl e \<Rightarrow> Inl e
      | Inr last_sunday_march \<Rightarrow>
     (case last_sunday (year utc_now) 10 of
        Inl e \<Rightarrow> Inl e
      | Inr last_sunday_october \<Rightarrow>
     (case mk_datetime (year utc_now) 3 last_sunday_march 1 0 0 of
        Inl e \<Rightarrow> Inl e
      | Inr dst_start_utc \<Rightarrow>
     (case mk_datetime (year utc_now) 10 last_sunday_october 1 0 0 of
        Inl e \<Rightarrow> Inl e
      | Inr dst_end_utc \<Rightarrow>
          add_hours utc_now
            (if dt_le dst_start_utc utc_now \<and> dt_less utc_now dst_end_utc then 2 else 1)))))"

text \<open>Lines 8-39. The first handler catches every exception, the second only ImportError.\<close>

definition get_polish_date :: "env \<Rightarrow> exn + string" where
  "get_polish_date e =
     (case zoneinfo_now e of
        Inr polish_time \<Rightarrow> Inr (strftime_dmy polish_time)
      | Inl _ \<Rightarrow>
          (case pytz_now e of
             Inr polish_time \<Rightarrow> Inr (strftime_dmy polish_time)
           | Inl x \<Rightarrow>
               if x = ImportError then
                 (case manual_polish_time (utcnow e) of
                    Inl x' \<Rightarrow> Inl x'
                  | Inr polish_time \<Rightarrow> Inr (strftime_dmy polish_time))
               else Inl x))"

text \<open>
  The environments the date is meant for: the library that answers hands back a datetime
  with a year of four digits; when zoneinfo fails and pytz is not installed, the clock shows
  such a datetime, before the last year a datetime can hold.
\<close>

definition four_digit_time :: "datetime \<Rightarrow> bool" where
  "four_digit_time t = (valid_datetime t \<and> 1000 \<le> year t)"

definition date_env_ok :: "env \<Rightarrow> bool" where
  "date_env_ok e =
     (case zoneinfo_now e of
        Inr t \<Rightarrow> four_digit_time t
      | Inl _ \<Rightarrow>
          (case pytz_now e of
             Inr t \<Rightarrow> four_digit_time t
           | Inl x \<Rightarrow> x = ImportError \<and> four_digit_time (utcnow e) \<and> year (utcnow e) \<le> 9998))"

subsection \<open>The retry loop\<close>

text \<open>
  The calls the script makes on the session and the clock, in order. The script never calls
  \<^verbatim>\<open>session.close()\<close> and does not use the session as a context manager, so no equation
  below appends \<open>SessionClose\<close>.
\<close>

datatype event = SessionNew | HeadersUpdate | Sleep int | SessionGet string | SessionClose

record world =
  trace :: "event list"
  requests :: nat

text \<open>
  \<^verbatim>\<open>time.sleep(secs)\<close> for a non-negative integer: the seconds are converted to nanoseconds
  in a signed 64-bit integer, and \<^verbatim>\<open>OverflowError\<close> is raised when they do not fit. So
  \<open>2 ^ 33\<close> seconds can be slept and \<open>2 ^ 34\<close> cannot.
\<close>

definition sleep :: "int \<Rightarrow> world \<Rightarrow> exn + world" where
  "sleep secs w =
     (if secs * 1000000000 \<le> 9223372036854775807
      then Inr (w\<lparr>trace := trace w @ [Sleep secs]\<rparr>)
      else Inl OverflowError)"

definition session_get :: "string \<Rightarrow> world \<Rightarrow> world" where
  "session_get url w = w\<lparr>trace := trace w @ [SessionGet url], requests := requests w + 1\<rparr>"

text \<open>
  Lines 93-160: \<^verbatim>\<open>for attempt in range(max_retries)\<close>, from \<open>attempt\<close> on. The result is what
  the function returns (\<open>None\<close> or a data frame) and the world after it. The sleep of line 98
  is inside the \<^verbatim>\<open>try\<close>: when it raises, the handler of line 156 returns \<open>None\<close>.
\<close>

function attempts :: "(string \<Rightarrow> nat \<Rightarrow> response) \<Rightarrow> string \<Rightarrow> int \<Rightarrow> int \<Rightarrow> world
    \<Rightarrow> dataframe option \<times> world" where
  "attempts srv url max_retries attempt w =
     (if attempt < max_retries then
        (case (if attempt > 0 then sleep (2 ^ nat attempt) w else Inr w) of
           Inl x \<Rightarrow> (None, w)
         | Inr w1 \<Rightarrow>
             (let w2 = session_get url w1
              in case srv url (requests w1) of
                   RequestException \<Rightarrow>
                     if attempt = max_retries - 1 then (None, w2)
                     else attempts srv url max_retries (attempt + 1) w2
                 | OtherException \<Rightarrow> (None, w2)
                 | Page s \<Rightarrow>
                     (case process_page s of
                        TableNotFound \<Rightarrow>
                          if attempt < max_retries - 1
                          then attempts srv url max_retries (attempt + 1) w2
                          else (None, w2)
                      | Returned r \<Rightarrow> (r, w2))))
      else (None, w))"
  by pat_completeness auto
termination
  by (relation "measure (\<lambda>(srv, url, max_retries, attempt, w). nat (max_retries - attempt))") auto

declare attempts.simps [simp del]

definition request_url :: "string \<Rightarrow> string" where
  "request_url date_str =
     ''https://tge.pl/energia-elektryczna-rdn?dateShow='' @ date_str @ ''&dateAction=prev''"

text \<open>Lines 69-71: the date to ask for, today's when none is given.\<close>

definition resolve_date :: "env \<Rightarrow> string option \<Rightarrow> exn + string" where
  "resolve_date e date_str = (case date_str of None \<Rightarrow> get_polish_date e | Some d \<Rightarrow> Inr d)"

text \<open>
  Lines 61-160. The result is \<open>Inl x\<close> when exception \<open>x\<close> leaves the function and \<open>Inr r\<close>
  when it returns \<open>r\<close>, with the calls made during the run.
\<close>

definition scrape_tge_data :: "env \<Rightarrow> string option \<Rightarrow> int \<Rightarrow> (exn + dataframe option) \<times> event list" where
  "scrape_tge_data e date_str max_retries =
     (case resolve_date e date_str of
        Inl x \<Rightarrow> (Inl x, [])
      | Inr d \<Rightarrow>
          (let w0 = \<lparr>trace = [SessionNew, HeadersUpdate], requests = 0\<rparr>;
               (r, w) = attempts (http e) (request_url d) max_retries 0 w0
           in (Inr r, trace w)))"


subsection \<open>Reading a run\<close>

text \<open>The calls of attempt number \<open>i\<close> (counted from 0, up to 33): a sleep of \<open>2 ^ i\<close>
  seconds unless it is the first, then the request. \<open>calls url a n\<close> are those of the attempts
  \<open>a, \<dots>, n - 1\<close>.\<close>

definition attempt_calls :: "string \<Rightarrow> nat \<Rightarrow> event list" where
  "attempt_calls url i = (if 0 < i then [Sleep (2 ^ i)] else []) @ [SessionGet url]"

definition calls :: "string \<Rightarrow> nat \<Rightarrow> nat \<Rightarrow> event list" where
  "calls url a n = concat (map (attempt_calls url) [a..<n])"

fun sleeps_of :: "event list \<Rightarrow> int list" where
  "sleeps_of [] = []"
| "sleeps_of (Sleep n # es) = n # sleeps_of es"
| "sleeps_of (_ # es) = sleeps_of es"

fun gets_of :: "event list \<Rightarrow> string list" where
  "gets_of [] = []"
| "gets_of (SessionGet u # es) = u # gets_of es"
| "gets_of (_ # es) = gets_of es"

text \<open>The outcomes of an attempt after which the loop goes on when attempts remain: the
  handler of line 152, and the branch of line 106.\<close>

definition retryable :: "response \<Rightarrow> bool" where
  "retryable r =
     (case r of RequestException \<Rightarrow> True | OtherException \<Rightarrow> False
      | Page s \<Rightarrow> process_page s = TableNotFound)"

subsection \<open>Sample pages and environments\<close>

definition plain_cell :: "string \<Rightarrow> cell" where
  "plain_cell txt = \<lparr>data_title = None, data_label = None, get_text = txt\<rparr>"

definition titled_cell :: "string \<Rightarrow> string \<Rightarrow> cell" where
  "titled_cell title txt = \<lparr>data_title = Some title, data_label = None, get_text = txt\<rparr>"

definition labeled_cell :: "string \<Rightarrow> string \<Rightarrow> cell" where
  "labeled_cell label txt = \<lparr>data_title = Some [], data_label = Some label, get_text = txt\<rparr>"

text \<open>Three data rows and one row without cells; two rows of type 60.\<close>

definition sample_trs :: "cell list list" where
  "sample_trs =
     [[plain_cell ''H01'', plain_cell ''60'', plain_cell ''410.00''],
      [],
      [plain_cell ''Q01'', plain_cell ''15''],
      [plain_cell ''H02'', plain_cell ''60'', plain_cell []]]"

definition sample_table :: table where
  "sample_table = Table (Some sample_trs)"

definition sample_page :: soup where
  "sample_page = Soup (Some sample_table)"

text \<open>A page whose cells are all labelled, none as the instrument type.\<close>

definition labeled_table :: table where
  "labeled_table =
     Table (Some [[titled_cell ''Godzina'' ''1'', labeled_cell ''Kurs'' ''60''],
                  [titled_cell ''Godzina'' ''2'', labeled_cell ''Kurs'' ''61'']])"

definition labeled_page :: soup where
  "labeled_page = Soup (Some labeled_table)"



definition noon :: datetime where
  "noon = \<lparr>year = 2026, month = 11, day = 4, hour = 12, minute = 0, second = 0, microsecond = 0\<rparr>"

text \<open>An environment whose first \<open>k\<close> requests fail in the transport and whose later ones
  deliver the sample page; neither time zone library is installed.\<close>

definition flaky_env :: "nat \<Rightarrow> env" where
  "flaky_env k =
     \<lparr>zoneinfo_now = Inl ImportError, pytz_now = Inl ImportError, utcnow = noon,
      http = (\<lambda>url n. if n < k then RequestException else Page sample_page)\<rparr>"



text \<open>Environments with zoneinfo at work, and with zoneinfo lacking its data and pytz at
  work; the Warsaw time is 13:00 on 4 November 2026.\<close>

definition zoneinfo_env :: env where
  "zoneinfo_env =
     \<lparr>zoneinfo_now = Inr (noon\<lparr>hour := 13\<rparr>), pytz_now = Inl ImportError, utcnow = noon,
      http = (\<lambda>url n. Page sample_page)\<rparr>"

definition pytz_env :: env where
  "pytz_env =
     \<lparr>zoneinfo_now = Inl LibraryError, pytz_now = Inr (noon\<lparr>hour := 13\<rparr>), utcnow = noon,
      http = (\<lambda>url n. Page sample_page)\<rparr>"

text \<open>An environment in which zoneinfo is not installed and pytz raises on its own.\<close>

definition broken_pytz_env :: env where
  "broken_pytz_env =
     \<lparr>zoneinfo_now = Inl ImportError, pytz_now = Inl LibraryError, utcnow = noon,
      http = (\<lambda>url n. Page sample_page)\<rparr>"

section \<open>Properties\<close>

subsection \<open>Field names and data frames\<close>

lemma COLUMN_MAPPING_keys: "map fst COLUMN_MAPPING = [0..<17]"
  unfolding COLUMN_MAPPING_def by (simp add: upt_rec)

lemma map_of_COLUMN_MAPPING_Some:
  "idx < 17 \<Longrightarrow> \<exists>n. map_of COLUMN_MAPPING idx = Some n"
proof -
  assume "idx < 17"
  then have "idx \<in> set (map fst COLUMN_MAPPING)" by (simp only: COLUMN_MAPPING_keys) simp
  then have "idx \<in> fst ` set COLUMN_MAPPING" by simp
  then have "map_of COLUMN_MAPPING idx \<noteq> None" by (simp only: map_of_eq_None_iff) simp
  then show ?thesis by blast
qed

lemma map_of_COLUMN_MAPPING_None:
  "17 \<le> idx \<Longrightarrow> map_of COLUMN_MAPPING idx = None"
proof -
  assume "17 \<le> idx"
  then have "idx \<notin> set (map fst COLUMN_MAPPING)" by (simp only: COLUMN_MAPPING_keys) simp
  then have "idx \<notin> fst ` set COLUMN_MAPPING" by simp
  then show ?thesis by (simp add: map_of_eq_None_iff) 
qed

lemma fill_row_keys:
  "fst ` set (fill_row i cs d) = fst ` set d \<union> {col_name (i + j) (cs ! j) | j. j < length cs}"
proof (induction cs arbitrary: i d)
  case Nil
  then show ?case by simp
next
  case (Cons c cs)
  have split: "{col_name (i + j) ((c # cs) ! j) | j. j < length (c # cs)}
      = {col_name i c} \<union> {col_name (Suc i + j) (cs ! j) | j. j < length cs}"
    (is "?L = ?R")
  proof
    show "?L \<subseteq> ?R"
    proof
      fix x assume "x \<in> ?L"
      then obtain j where j: "j < length (c # cs)" "x = col_name (i + j) ((c # cs) ! j)" by blast
      show "x \<in> ?R"
      proof (cases j)
        case 0
        with j show ?thesis by simp
      next
        case (Suc k)
        with j have "k < length cs" "x = col_name (Suc i + k) (cs ! k)" by simp_all
        then show ?thesis by blast
      qed
    qed
    show "?R \<subseteq> ?L"
    proof
      fix x assume "x \<in> ?R"
      then consider "x = col_name i c" | k where "k < length cs" "x = col_name (Suc i + k) (cs ! k)"
        by blast
      then show "x \<in> ?L"
      proof cases
        case 1
        then have "0 < length (c # cs) \<and> x = col_name (i + 0) ((c # cs) ! 0)" by simp
        then show ?thesis by blast
      next
        case 2
        then have "Suc k < length (c # cs) \<and> x = col_name (i + Suc k) ((c # cs) ! Suc k)" by simp
        then show ?thesis by blast
      qed
    qed
  qed
  have "fst ` set (fill_row i (c # cs) d)
      = fst ` set (AList.update (col_name i c) (get_text c) d)
        \<union> {col_name (Suc i + j) (cs ! j) | j. j < length cs}"
    by (simp only: fill_row.simps Cons.IH)
  also have "\<dots> = fst ` set d \<union> ({col_name i c} \<union> {col_name (Suc i + j) (cs ! j) | j. j < length cs})"
    by (simp only: AList.dom_update) blast
  finally show ?case by (simp only: split)
qed

lemma set_first_seen: "set (first_seen acc ks) = set acc \<union> set ks"
  by (induction ks arbitrary: acc) auto

lemma distinct_first_seen: "distinct acc \<Longrightarrow> distinct (first_seen acc ks)"
  by (induction ks arbitrary: acc) auto

lemma columns_DataFrame:
  "set (columns (DataFrame rows)) = (\<Union>r \<in> set rows. fst ` set r)"
  by (auto simp: DataFrame_def Let_def set_first_seen)

lemma data_DataFrame:
  "data (DataFrame rows) = map (frame_row (columns (DataFrame rows))) rows"
  by (simp add: DataFrame_def Let_def)

lemma series_DataFrame:
  assumes "col \<in> set (columns (DataFrame rows))"
  shows "series (DataFrame rows) col = map (\<lambda>r. map_of r col) rows"
proof -
  have "map_of (zip cols (frame_row cols r)) col = Some (map_of r col)"
    if "col \<in> set cols" for cols r
    using that by (simp add: frame_row_def map_of_zip_map)
  with assms show ?thesis
    by (simp add: series_def data_DataFrame)
qed

lemma select_map:
  "map snd (filter fst (zip (map p xs) (map f xs))) = map f (filter p xs)"
  by (induction xs) auto

lemma filter_frame_present:
  assumes "''Typ instrumentu'' \<in> set (columns (DataFrame rows))"
  shows "filter_frame (DataFrame rows) =
     Some \<lparr>columns = columns (DataFrame rows),
           data = map (frame_row (columns (DataFrame rows)))
                    (filter (\<lambda>r. map_of r ''Typ instrumentu'' = Some ''60'') rows)\<rparr>"
proof -
  have "map (\<lambda>v. v = Some ''60'') (series (DataFrame rows) ''Typ instrumentu'')
      = map (\<lambda>r. map_of r ''Typ instrumentu'' = Some ''60'') rows"
    by (simp add: series_DataFrame [OF assms])
  then have "select_rows (DataFrame rows)
        (map (\<lambda>v. v = Some ''60'') (series (DataFrame rows) ''Typ instrumentu''))
      = \<lparr>columns = columns (DataFrame rows),
         data = map (frame_row (columns (DataFrame rows)))
                  (filter (\<lambda>r. map_of r ''Typ instrumentu'' = Some ''60'') rows)\<rparr>"
    by (simp add: select_rows_def data_DataFrame select_map)
  with assms show ?thesis
    by (simp add: filter_frame_def Let_def)
qed

lemma tbody_rows_eq:
  "tbody_rows trs = map (\<lambda>cells. fill_row 0 cells []) (filter (\<lambda>cells. cells \<noteq> []) trs)"
  by (induction trs) auto

lemma fill_row_nonempty: "d \<noteq> [] \<or> cs \<noteq> [] \<Longrightarrow> fill_row i cs d \<noteq> []"
  by (induction cs arbitrary: i d) auto

lemma tbody_rows_nonempty: "r \<in> set (tbody_rows trs) \<Longrightarrow> r \<noteq> []"
proof -
  assume "r \<in> set (tbody_rows trs)"
  then obtain cells where "cells \<noteq> []" "r = fill_row 0 cells []"
    by (auto simp: tbody_rows_eq)
  then show ?thesis by (simp add: fill_row_nonempty)
qed

lemma page_rows_nonempty: "r \<in> set (page_rows t) \<Longrightarrow> r \<noteq> []"
  by (cases "tbody t") (simp_all add: page_rows_def tbody_rows_nonempty)

subsection \<open>The sample pages, evaluated\<close>

lemma sample_rows:
  "tbody_rows sample_trs =
     [[(''Instrument'', ''H01''), (''Typ instrumentu'', ''60''),
       (''Fixing I - Kurs [PLN/MWh]'', ''410.00'')],
      [(''Instrument'', ''Q01''), (''Typ instrumentu'', ''15'')],
      [(''Instrument'', ''H02''), (''Typ instrumentu'', ''60''),
       (''Fixing I - Kurs [PLN/MWh]'', [])]]"
  by code_simp

lemma sample_result:
  "process_page sample_page =
     Returned (Some \<lparr>columns = [''Instrument'', ''Typ instrumentu'', ''Fixing I - Kurs [PLN/MWh]''],
                     data = [[Some ''H01'', Some ''60'', Some ''410.00''],
                             [Some ''H02'', Some ''60'', Some []]]\<rparr>)"
  by code_simp

lemma labeled_rows:
  "page_rows labeled_table =
     [[(''Godzina'', ''1''), (''Kurs'', ''60'')], [(''Godzina'', ''2''), (''Kurs'', ''61'')]]"
  by code_simp


subsection \<open>C5: the name of a field\<close>

text \<open>
  C5. The field name of a cell is its \<^verbatim>\<open>data-title\<close> attribute when that is a non-empty
  string, else its \<^verbatim>\<open>data-label\<close> attribute when that is a non-empty string, else the entry of
  the 17-entry positional table at the cell's position, else, from position 17 on,
  \<^verbatim>\<open>Kolumna_\<close> followed by the position plus one. So a label \<^verbatim>\<open>Instrument\<close> names the field at
  any position, and an unlabelled cell at position 2 fills \<^verbatim>\<open>Fixing I - Kurs [PLN/MWh]\<close>. The
  keys of a row dictionary are exactly the names of its cells.
\<close>

theorem col_name_resolution:
  "length COLUMN_MAPPING = 17
   \<and> (data_title c = Some t \<and> t \<noteq> [] \<longrightarrow> col_name idx c = t)
   \<and> (\<not> truthy (data_title c) \<and> data_label c = Some l \<and> l \<noteq> [] \<longrightarrow> col_name idx c = l)
   \<and> (\<not> truthy (data_title c) \<and> \<not> truthy (data_label c) \<and> idx < 17
        \<longrightarrow> map_of COLUMN_MAPPING idx = Some (col_name idx c))
   \<and> (\<not> truthy (data_title c) \<and> \<not> truthy (data_label c) \<and> idx = 2
        \<longrightarrow> col_name idx c = ''Fixing I - Kurs [PLN/MWh]'')
   \<and> (\<not> truthy (data_title c) \<and> \<not> truthy (data_label c) \<and> 17 \<le> idx
        \<longrightarrow> col_name idx c = ''Kolumna_'' @ str_nat (idx + 1))
   \<and> fst ` set (fill_row 0 cells []) = {col_name j (cells ! j) | j. j < length cells}"
proof (intro conjI impI)
  show "length COLUMN_MAPPING = 17" by (simp add: COLUMN_MAPPING_def)
next
  assume "data_title c = Some t \<and> t \<noteq> []"
  then show "col_name idx c = t" by (simp add: col_name_def py_or_def truthy_def)
next
  assume "\<not> truthy (data_title c) \<and> data_label c = Some l \<and> l \<noteq> []"
  then show "col_name idx c = l" by (simp add: col_name_def py_or_def)
next
  assume a: "\<not> truthy (data_title c) \<and> \<not> truthy (data_label c) \<and> idx < 17"
  then obtain n where "map_of COLUMN_MAPPING idx = Some n"
    using map_of_COLUMN_MAPPING_Some by blast
  with a show "map_of COLUMN_MAPPING idx = Some (col_name idx c)"
    by (auto simp: col_name_def py_or_def truthy_def split: option.splits)
next
  assume a: "\<not> truthy (data_title c) \<and> \<not> truthy (data_label c) \<and> idx = 2"
  have "map_of COLUMN_MAPPING 2 = Some ''Fixing I - Kurs [PLN/MWh]''"
    by (simp add: COLUMN_MAPPING_def)
  with a show "col_name idx c = ''Fixing I - Kurs [PLN/MWh]''"
    by (auto simp: col_name_def py_or_def truthy_def split: option.splits)
next
  assume a: "\<not> truthy (data_title c) \<and> \<not> truthy (data_label c) \<and> 17 \<le> idx"
  then have "map_of COLUMN_MAPPING idx = None"
    using map_of_COLUMN_MAPPING_None by blast
  with a show "col_name idx c = ''Kolumna_'' @ str_nat (idx + 1)"
    by (auto simp: col_name_def py_or_def truthy_def split: option.splits)
next
  show "fst ` set (fill_row 0 cells []) = {col_name j (cells ! j) | j. j < length cells}"
    using fill_row_keys [of 0 cells "[]"] by simp
qed

theorem col_name_resolution_witness:
  "col_name 9 (titled_cell ''Instrument'' ''H01'') = ''Instrument''
   \<and> col_name 9 (labeled_cell ''Instrument'' ''H01'') = ''Instrument''
   \<and> \<not> truthy (data_title (plain_cell ''1'')) \<and> \<not> truthy (data_label (plain_cell ''1''))
   \<and> map_of COLUMN_MAPPING 16 = Some (col_name 16 (plain_cell ''1''))
   \<and> col_name 2 (plain_cell ''1'') = ''Fixing I - Kurs [PLN/MWh]''
   \<and> col_name 17 (plain_cell ''1'') = ''Kolumna_'' @ str_nat (17 + 1)
   \<and> str_nat (17 + 1) = ''18''"
proof -
  have t: "data_title (titled_cell ''Instrument'' ''H01'') = Some ''Instrument'' \<and> ''Instrument'' \<noteq> []"
    by (simp add: titled_cell_def)
  have l: "\<not> truthy (data_title (labeled_cell ''Instrument'' ''H01''))
           \<and> data_label (labeled_cell ''Instrument'' ''H01'') = Some ''Instrument''
           \<and> ''Instrument'' \<noteq> []"
    by (simp add: labeled_cell_def truthy_def)
  have p: "\<not> truthy (data_title (plain_cell ''1''))" "\<not> truthy (data_label (plain_cell ''1''))"
    by (simp_all add: plain_cell_def truthy_def)
  have s: "str_nat (17 + 1) = ''18''" by code_simp
  show ?thesis
    using t l p s
      col_name_resolution [of "titled_cell ''Instrument'' ''H01''" "''Instrument''" 9]
      col_name_resolution [of "labeled_cell ''Instrument'' ''H01''" _ 9 "''Instrument''"]
      col_name_resolution [of "plain_cell ''1''" _ 16]
      col_name_resolution [of "plain_cell ''1''" _ 2]
      col_name_resolution [of "plain_cell ''1''" _ 17]
    by simp
qed

subsection \<open>C1: the rows of type 60\<close>

text \<open>
  C1. For a page whose table and table body exist and in which some record has the field
  \<^verbatim>\<open>Typ instrumentu\<close>, the extractor returns a data frame whose rows are exactly the records
  with \<^verbatim>\<open>Typ instrumentu\<close> equal to \<^verbatim>\<open>60\<close>, in the order of the table body; the records are
  those of the rows of the body that have cells. With N such rows and M of them of type 60,
  the frame has M rows.
\<close>

theorem extractor_keeps_type_60:
  assumes table: "find_table s = Some t"
    and body: "tbody t = Some trs"
    and field: "\<exists>r \<in> set (tbody_rows trs). ''Typ instrumentu'' \<in> fst ` set r"
  shows "\<exists>df. process_page s = Returned (Some df)
           \<and> columns df = columns (DataFrame (tbody_rows trs))
           \<and> data df = map (frame_row (columns df))
                 (filter (\<lambda>r. map_of r ''Typ instrumentu'' = Some ''60'') (tbody_rows trs))
           \<and> length (data df)
               = length (filter (\<lambda>r. map_of r ''Typ instrumentu'' = Some ''60'') (tbody_rows trs))
           \<and> tbody_rows trs
               = map (\<lambda>cells. fill_row 0 cells []) (filter (\<lambda>cells. cells \<noteq> []) trs)"
proof -
  let ?rows = "tbody_rows trs"
  let ?df = "\<lparr>columns = columns (DataFrame ?rows),
              data = map (frame_row (columns (DataFrame ?rows)))
                       (filter (\<lambda>r. map_of r ''Typ instrumentu'' = Some ''60'') ?rows)\<rparr>"
  from field have ne: "?rows \<noteq> []" by auto
  from field have col: "''Typ instrumentu'' \<in> set (columns (DataFrame ?rows))"
    by (simp only: columns_DataFrame) blast
  have "process_page s = Returned (filter_frame (DataFrame ?rows))"
    using table body ne by (simp add: process_page_def page_rows_def)
  then have 1: "process_page s = Returned (Some ?df)"
    by (simp only: filter_frame_present [OF col])
  have 2: "columns ?df = columns (DataFrame ?rows)" by simp
  have 3: "data ?df = map (frame_row (columns ?df))
                 (filter (\<lambda>r. map_of r ''Typ instrumentu'' = Some ''60'') ?rows)" by simp
  have 4: "length (data ?df)
      = length (filter (\<lambda>r. map_of r ''Typ instrumentu'' = Some ''60'') ?rows)" by simp
  have 5: "?rows = map (\<lambda>cells. fill_row 0 cells []) (filter (\<lambda>cells. cells \<noteq> []) trs)"
    by (rule tbody_rows_eq)
  from 1 2 3 4 5 show ?thesis by blast
qed

theorem extractor_keeps_type_60_witness:
  "find_table sample_page = Some sample_table
   \<and> tbody sample_table = Some sample_trs
   \<and> (\<exists>r \<in> set (tbody_rows sample_trs). ''Typ instrumentu'' \<in> fst ` set r)
   \<and> length (tbody_rows sample_trs) = 3
   \<and> (\<exists>df. process_page sample_page = Returned (Some df) \<and> length (data df) = 2)"
proof -
  have h1: "find_table sample_page = Some sample_table" by (simp add: sample_page_def)
  have h2: "tbody sample_table = Some sample_trs" by (simp add: sample_table_def)
  have h3: "\<exists>r \<in> set (tbody_rows sample_trs). ''Typ instrumentu'' \<in> fst ` set r"
    by (simp add: sample_rows)
  have n: "length (tbody_rows sample_trs) = 3" by (simp add: sample_rows)
  have m: "length (filter (\<lambda>r. map_of r ''Typ instrumentu'' = Some ''60'') (tbody_rows sample_trs)) = 2"
    by (simp add: sample_rows)
  from extractor_keeps_type_60 [OF h1 h2 h3] m
  have "\<exists>df. process_page sample_page = Returned (Some df) \<and> length (data df) = 2"
    by auto
  with h1 h2 h3 n show ?thesis by blast
qed

subsection \<open>C6: no instrument type field\<close>

text \<open>
  C6. When the table yields at least one record and no record has a field named
  \<^verbatim>\<open>Typ instrumentu\<close>, the extractor returns the data frame of all the records, unfiltered:
  one row per record, in order, and the frame is not empty.
\<close>

theorem missing_filter_field_returns_all:
  assumes table: "find_table s = Some t"
    and rows: "page_rows t \<noteq> []"
    and absent: "\<forall>r \<in> set (page_rows t). ''Typ instrumentu'' \<notin> fst ` set r"
  shows "process_page s = Returned (Some (DataFrame (page_rows t)))
         \<and> data (DataFrame (page_rows t))
             = map (frame_row (columns (DataFrame (page_rows t)))) (page_rows t)
         \<and> length (data (DataFrame (page_rows t))) = length (page_rows t)
         \<and> \<not> empty_frame (DataFrame (page_rows t))"
proof -
  from absent have col: "''Typ instrumentu'' \<notin> set (columns (DataFrame (page_rows t)))"
    by (simp only: columns_DataFrame) blast
  have "process_page s = Returned (filter_frame (DataFrame (page_rows t)))"
    using table rows by (simp add: process_page_def)
  moreover have "filter_frame (DataFrame (page_rows t)) = Some (DataFrame (page_rows t))"
    using col by (simp add: filter_frame_def)
  moreover have "columns (DataFrame (page_rows t)) \<noteq> []"
  proof -
    from rows obtain r where r: "r \<in> set (page_rows t)" by (cases "page_rows t") auto
    then have "r \<noteq> []" by (rule page_rows_nonempty)
    then obtain k where "k \<in> fst ` set r" by (cases r) auto
    with r have "k \<in> set (columns (DataFrame (page_rows t)))"
      by (simp only: columns_DataFrame) blast
    then show ?thesis by auto
  qed
  ultimately show ?thesis
    using rows by (simp add: data_DataFrame empty_frame_def)
qed

theorem missing_filter_field_returns_all_witness:
  "find_table labeled_page = Some labeled_table
   \<and> page_rows labeled_table \<noteq> []
   \<and> list_all (\<lambda>r. ''Typ instrumentu'' \<notin> fst ` set r) (page_rows labeled_table)
   \<and> process_page labeled_page = Returned (Some (DataFrame (page_rows labeled_table)))
   \<and> length (data (DataFrame (page_rows labeled_table))) = 2"
proof -
  have h1: "find_table labeled_page = Some labeled_table" by (simp add: labeled_page_def)
  have h2: "page_rows labeled_table \<noteq> []" by (simp add: labeled_rows)
  have h3: "\<forall>r \<in> set (page_rows labeled_table). ''Typ instrumentu'' \<notin> fst ` set r"
    by (simp add: labeled_rows)
  have n: "length (page_rows labeled_table) = 2" by (simp add: labeled_rows)
  from h3 have h3': "list_all (\<lambda>r. ''Typ instrumentu'' \<notin> fst ` set r) (page_rows labeled_table)"
    by (simp only: list_all_iff)
  from missing_filter_field_returns_all [OF h1 h2 h3] n h1 h2 h3' show ?thesis by simp
qed

subsection \<open>The retry loop, step by step\<close>

lemma calls_empty [simp]: "calls url a a = []"
  by (simp add: calls_def)

lemma calls_step: "a < n \<Longrightarrow> calls url a n = attempt_calls url a @ calls url (Suc a) n"
  by (simp add: calls_def upt_conv_Cons)

text \<open>A sleep of \<open>2 ^ a\<close> seconds can be started up to \<open>a = 33\<close> and no further.\<close>

lemma sleep_fits:
  assumes "a \<le> 33"
  shows "sleep (2 ^ a) w = Inr (w\<lparr>trace := trace w @ [Sleep (2 ^ a)]\<rparr>)"
proof -
  from assms have "(2::int) ^ a \<le> 2 ^ 33" by (intro power_increasing) simp_all
  then have "(2::int) ^ a * 1000000000 \<le> 9223372036854775807" by simp
  then show ?thesis by (simp add: sleep_def)
qed

lemma sleep_overflow:
  assumes "34 \<le> a"
  shows "sleep (2 ^ a) w = Inl OverflowError"
proof -
  from assms have "(2::int) ^ 34 \<le> 2 ^ a" by (intro power_increasing) simp_all
  then have "\<not> (2::int) ^ a * 1000000000 \<le> 9223372036854775807" by simp
  then show ?thesis by (simp add: sleep_def)
qed

lemma attempts_unfold:
  assumes "a \<le> 33" and "int a < mr" and "requests w = a"
  shows "attempts srv url mr (int a) w =
     (let w2 = \<lparr>trace = trace w @ attempt_calls url a, requests = Suc a\<rparr>
      in case srv url a of
           RequestException \<Rightarrow>
             if int a = mr - 1 then (None, w2) else attempts srv url mr (int (Suc a)) w2
         | OtherException \<Rightarrow> (None, w2)
         | Page s \<Rightarrow>
             (case process_page s of
                TableNotFound \<Rightarrow>
                  if int a < mr - 1 then attempts srv url mr (int (Suc a)) w2 else (None, w2)
              | Returned r \<Rightarrow> (r, w2)))"
proof -
  let ?w1 = "if 0 < a then w\<lparr>trace := trace w @ [Sleep (2 ^ a)]\<rparr> else w"
  have s: "(if int a > 0 then sleep (2 ^ nat (int a)) w else Inr w) = Inr ?w1"
    by (simp add: sleep_fits [OF assms(1)])
  have w2: "session_get url ?w1 = \<lparr>trace = trace w @ attempt_calls url a, requests = Suc a\<rparr>"
    using assms(3) by (simp add: session_get_def attempt_calls_def)
  have rq: "requests ?w1 = a"
    using assms(3) by simp
  have nx: "int a + 1 = int (Suc a)" by simp
  show ?thesis
    using assms(2)
    by (subst attempts.simps) (simp only: s sum.case w2 rq nx Let_def if_True)
qed

lemma attempts_done: "mr \<le> a \<Longrightarrow> attempts srv url mr a w = (None, w)"
  by (subst attempts.simps) simp

text \<open>From attempt 34 on the sleep raises, line 156 catches it, and the run ends without a
  request.\<close>

lemma attempts_overflow:
  assumes "34 \<le> a" and "int a < mr"
  shows "attempts srv url mr (int a) w = (None, w)"
proof -
  from assms(1) have p: "int a > 0" by simp
  have s: "(if int a > 0 then sleep (2 ^ nat (int a)) w else Inr w) = Inl OverflowError"
    using p by (simp add: sleep_overflow [OF assms(1)])
  show ?thesis
    using assms(2) by (subst attempts.simps) (simp only: s sum.case if_True)
qed

lemma attempts_stop:
  assumes "a \<le> 33" and "int a < mr" and "requests w = a"
    and "srv url a = Page s" and "process_page s = Returned r"
  shows "attempts srv url mr (int a) w
     = (r, \<lparr>trace = trace w @ attempt_calls url a, requests = Suc a\<rparr>)"
  by (simp add: attempts_unfold [OF assms(1,2,3)] assms(4,5))

lemma attempts_other:
  assumes "a \<le> 33" and "int a < mr" and "requests w = a" and "srv url a = OtherException"
  shows "attempts srv url mr (int a) w
     = (None, \<lparr>trace = trace w @ attempt_calls url a, requests = Suc a\<rparr>)"
  by (simp add: attempts_unfold [OF assms(1,2,3)] assms(4))

lemma attempts_last:
  assumes "a \<le> 33" and "mr = int a + 1" and "requests w = a" and "retryable (srv url a)"
  shows "attempts srv url mr (int a) w
     = (None, \<lparr>trace = trace w @ attempt_calls url a, requests = Suc a\<rparr>)"
proof -
  from assms(2) have lt: "int a < mr" by simp
  note U = attempts_unfold [OF assms(1) lt assms(3), of srv url]
  from assms(2) have c: "int a = mr - 1" "\<not> int a < mr - 1" by simp_all
  from assms(4) show ?thesis
    unfolding U by (simp add: c retryable_def split: response.splits page_outcome.splits)
qed

lemma attempts_next:
  assumes "a \<le> 33" and "int a < mr - 1" and "requests w = a" and "retryable (srv url a)"
  shows "attempts srv url mr (int a) w
     = attempts srv url mr (int (Suc a)) \<lparr>trace = trace w @ attempt_calls url a, requests = Suc a\<rparr>"
proof -
  from assms(2) have lt: "int a < mr" by simp
  note U = attempts_unfold [OF assms(1) lt assms(3), of srv url]
  from assms(2) have c: "int a \<noteq> mr - 1" by simp
  from assms(2,4) c show ?thesis
    unfolding U by (simp add: retryable_def split: response.splits page_outcome.splits)
qed

lemma attempts_retry_then_return:
  assumes "\<forall>i<j. retryable (srv url (a + i))"
    and "srv url (a + j) = Page s" and "process_page s = Returned r"
    and "int (a + j) < mr" and "requests w = a" and "a + j \<le> 33"
  shows "attempts srv url mr (int a) w
     = (r, \<lparr>trace = trace w @ calls url a (Suc (a + j)), requests = Suc (a + j)\<rparr>)"
  using assms
proof (induction j arbitrary: a w)
  case 0
  then show ?case
    by (simp add: attempts_stop calls_step)
next
  case (Suc j)
  let ?w2 = "\<lparr>trace = trace w @ attempt_calls url a, requests = Suc a\<rparr>"
  from Suc.prems(1) have r0: "retryable (srv url a)" by (metis add.right_neutral zero_less_Suc)
  from Suc.prems(1) have rest: "\<forall>i<j. retryable (srv url (Suc a + i))" by auto
  from Suc.prems(4) have lt: "int a < mr - 1" by auto
  from Suc.prems(6) have b: "a \<le> 33" by simp
  have step: "attempts srv url mr (int a) w = attempts srv url mr (int (Suc a)) ?w2"
    using b lt Suc.prems(5) r0 by (rule attempts_next)
  have "attempts srv url mr (int (Suc a)) ?w2
     = (r, \<lparr>trace = trace ?w2 @ calls url (Suc a) (Suc (Suc a + j)), requests = Suc (Suc a + j)\<rparr>)"
    using Suc.prems by (intro Suc.IH rest) simp_all
  with step show ?case
    by (simp add: calls_step [of a])
qed

text \<open>When every attempt fails in a way the loop retries, the run ends after the last
  attempt allowed, or after attempt 33 when more than 34 are allowed.\<close>

lemma attempts_exhausted:
  assumes "\<forall>i. a \<le> i \<and> int i < mr \<and> i \<le> 33 \<longrightarrow> retryable (srv url i)"
    and "int a \<le> mr" and "a \<le> 34" and "requests w = a"
  shows "attempts srv url mr (int a) w
     = (None, \<lparr>trace = trace w @ calls url a (min (nat mr) 34), requests = min (nat mr) 34\<rparr>)"
  using assms
proof (induction "min (nat mr) 34 - a" arbitrary: a w)
  case 0
  then have m: "min (nat mr) 34 = a" by simp
  have w: "\<lparr>trace = trace w @ calls url a (min (nat mr) 34), requests = min (nat mr) 34\<rparr> = w"
    using "0.prems"(4) by (simp only: m) simp
  have "attempts srv url mr (int a) w = (None, w)"
  proof (cases "mr = int a")
    case True
    then show ?thesis by (simp add: attempts_done)
  next
    case False
    with "0.prems"(2) have lt: "int a < mr" by simp
    with m have "34 \<le> a" by simp
    then show ?thesis using lt by (rule attempts_overflow)
  qed
  then show ?case by (simp only: w)
next
  case (Suc k)
  let ?w2 = "\<lparr>trace = trace w @ attempt_calls url a, requests = Suc a\<rparr>"
  from Suc.hyps(2) have am: "a < min (nat mr) 34" by linarith
  then have lt: "int a < mr" and b: "a \<le> 33" by linarith+
  with Suc.prems(1) have r0: "retryable (srv url a)" by simp
  have cs: "calls url a (min (nat mr) 34) = attempt_calls url a @ calls url (Suc a) (min (nat mr) 34)"
    using am by (rule calls_step)
  show ?case
  proof (cases "mr = int a + 1")
    case True
    with b have n: "min (nat mr) 34 = Suc a" by simp
    have "attempts srv url mr (int a) w = (None, ?w2)"
      using b True Suc.prems(4) r0 by (rule attempts_last)
    then show ?thesis by (simp add: n calls_step)
  next
    case False
    with lt have lt2: "int a < mr - 1" by simp
    have step: "attempts srv url mr (int a) w = attempts srv url mr (int (Suc a)) ?w2"
      using b lt2 Suc.prems(4) r0 by (rule attempts_next)
    have "attempts srv url mr (int (Suc a)) ?w2
       = (None, \<lparr>trace = trace ?w2 @ calls url (Suc a) (min (nat mr) 34),
                 requests = min (nat mr) 34\<rparr>)"
    proof (rule Suc.hyps(1))
      show "k = min (nat mr) 34 - Suc a" using Suc.hyps(2) by simp
      show "\<forall>i. Suc a \<le> i \<and> int i < mr \<and> i \<le> 33 \<longrightarrow> retryable (srv url i)"
        using Suc.prems(1) by simp
      show "int (Suc a) \<le> mr" using lt by simp
      show "Suc a \<le> 34" using b by simp
      show "requests ?w2 = Suc a" by simp
    qed
    with step cs show ?thesis by simp
  qed
qed

lemma attempts_trace:
  assumes "requests w = a"
  shows "\<exists>es. trace (snd (attempts srv url mr (int a) w)) = trace w @ es
            \<and> SessionClose \<notin> set es \<and> SessionNew \<notin> set es
            \<and> (int a < mr \<and> a \<le> 33 \<longrightarrow> (\<exists>es'. es = attempt_calls url a @ es'))"
  using assms
proof (induction "nat mr - a" arbitrary: a w)
  case 0
  then have "mr \<le> int a" by simp
  then show ?case by (simp add: attempts_done)
next
  case (Suc k)
  let ?w2 = "\<lparr>trace = trace w @ attempt_calls url a, requests = Suc a\<rparr>"
  from Suc.hyps(2) have lt: "int a < mr" by simp
  show ?case
  proof (cases "a \<le> 33")
    case False
    then have "34 \<le> a" by simp
    then have "attempts srv url mr (int a) w = (None, w)" using lt by (rule attempts_overflow)
    with False show ?thesis by simp
  next
    case b: True
    have ac: "SessionClose \<notin> set (attempt_calls url a)" "SessionNew \<notin> set (attempt_calls url a)"
      by (simp_all add: attempt_calls_def)
    have "k = nat mr - Suc a" using Suc.hyps(2) by simp
    moreover have "requests ?w2 = Suc a" by simp
    ultimately obtain es where es:
      "trace (snd (attempts srv url mr (int (Suc a)) ?w2)) = trace ?w2 @ es"
      "SessionClose \<notin> set es" "SessionNew \<notin> set es"
      using Suc.hyps(1) by blast
    have stop: ?thesis if "attempts srv url mr (int a) w = (r, ?w2)" for r
      using that ac lt by simp
    have go: ?thesis if "attempts srv url mr (int a) w = attempts srv url mr (int (Suc a)) ?w2"
      using that ac lt es by simp
    have last: "attempts srv url mr (int a) w = (None, ?w2)"
      if "mr = int a + 1" "retryable (srv url a)"
      using b that(1) Suc.prems that(2) by (rule attempts_last)
    have "next": "attempts srv url mr (int a) w = attempts srv url mr (int (Suc a)) ?w2"
      if "mr \<noteq> int a + 1" "retryable (srv url a)"
    proof -
      from that(1) lt have "int a < mr - 1" by simp
      then show ?thesis using b Suc.prems that(2) by (intro attempts_next)
    qed
    have retry: ?thesis if "retryable (srv url a)"
      using that last "next" stop go by (cases "mr = int a + 1") blast+
    show ?thesis
    proof (cases "srv url a")
      case RequestException
      then have "retryable (srv url a)" by (simp add: retryable_def)
      then show ?thesis by (rule retry)
    next
      case OtherException
      have "attempts srv url mr (int a) w = (None, ?w2)"
        using b lt Suc.prems OtherException by (rule attempts_other)
      then show ?thesis by (rule stop)
    next
      case (Page s)
      show ?thesis
      proof (cases "process_page s")
        case TableNotFound
        with Page have "retryable (srv url a)" by (simp add: retryable_def)
        then show ?thesis by (rule retry)
      next
        case (Returned r)
        have "attempts srv url mr (int a) w = (r, ?w2)"
          using b lt Suc.prems Page Returned by (rule attempts_stop)
        then show ?thesis by (rule stop)
      qed
    qed
  qed
qed


subsection \<open>Whole runs\<close>

lemma gets_of_append: "gets_of (xs @ ys) = gets_of xs @ gets_of ys"
  by (induction xs rule: gets_of.induct) auto

lemma sleeps_of_append: "sleeps_of (xs @ ys) = sleeps_of xs @ sleeps_of ys"
  by (induction xs rule: sleeps_of.induct) auto

lemma calls_later:
  assumes "0 < a"
  shows "calls url a n = concat (map (\<lambda>i. [Sleep (2 ^ i), SessionGet url]) [a..<n])"
proof -
  have "map (attempt_calls url) [a..<n] = map (\<lambda>i. [Sleep (2 ^ i), SessionGet url]) [a..<n]"
    using assms by (intro map_cong refl) (simp add: attempt_calls_def)
  then show ?thesis by (simp only: calls_def)
qed

lemma calls_from_0:
  "calls url 0 (Suc K) = SessionGet url # concat (map (\<lambda>i. [Sleep (2 ^ i), SessionGet url]) [1..<Suc K])"
proof -
  have "calls url 0 (Suc K) = attempt_calls url 0 @ calls url (Suc 0) (Suc K)"
    by (rule calls_step) simp
  also have "calls url (Suc 0) (Suc K)
      = concat (map (\<lambda>i. [Sleep (2 ^ i), SessionGet url]) [Suc 0..<Suc K])"
    by (rule calls_later) simp
  finally show ?thesis by (simp add: attempt_calls_def)
qed



lemma scrape_unfold:
  assumes "resolve_date e date_str = Inr d"
  shows "scrape_tge_data e date_str mr =
     (Inr (fst (attempts (http e) (request_url d) mr (int 0)
                  \<lparr>trace = [SessionNew, HeadersUpdate], requests = 0\<rparr>)),
      trace (snd (attempts (http e) (request_url d) mr (int 0)
                  \<lparr>trace = [SessionNew, HeadersUpdate], requests = 0\<rparr>)))"
  using assms by (simp add: scrape_tge_data_def Let_def split: prod.splits)

lemma scrape_raises:
  assumes "resolve_date e date_str = Inl x"
  shows "scrape_tge_data e date_str mr = (Inl x, [])"
  using assms by (simp add: scrape_tge_data_def)

lemma scrape_retry_then_return:
  assumes date: "resolve_date e date_str = Inr d"
    and earlier: "\<forall>i<K. retryable (http e (request_url d) i)"
    and page: "http e (request_url d) K = Page s" "process_page s = Returned r"
    and K: "int K < mr"
    and bound: "K \<le> 33"
  shows "scrape_tge_data e date_str mr
     = (Inr r, [SessionNew, HeadersUpdate] @ calls (request_url d) 0 (Suc K))"
proof -
  let ?w0 = "\<lparr>trace = [SessionNew, HeadersUpdate], requests = 0\<rparr>"
  have "attempts (http e) (request_url d) mr (int 0) ?w0
     = (r, \<lparr>trace = trace ?w0 @ calls (request_url d) 0 (Suc (0 + K)), requests = Suc (0 + K)\<rparr>)"
    using earlier page K bound by (intro attempts_retry_then_return) simp_all
  then show ?thesis by (simp add: scrape_unfold [OF date])
qed

lemma scrape_exhausted:
  assumes date: "resolve_date e date_str = Inr d"
    and all: "\<forall>i. int i < mr \<and> i \<le> 33 \<longrightarrow> retryable (http e (request_url d) i)"
    and mr: "0 \<le> mr"
  shows "scrape_tge_data e date_str mr
     = (Inr None, [SessionNew, HeadersUpdate] @ calls (request_url d) 0 (min (nat mr) 34))"
proof -
  let ?w0 = "\<lparr>trace = [SessionNew, HeadersUpdate], requests = 0\<rparr>"
  have "attempts (http e) (request_url d) mr (int 0) ?w0
     = (None, \<lparr>trace = trace ?w0 @ calls (request_url d) 0 (min (nat mr) 34),
               requests = min (nat mr) 34\<rparr>)"
    using all mr by (intro attempts_exhausted) simp_all
  then show ?thesis by (simp add: scrape_unfold [OF date])
qed



lemma scrape_trace:
  "snd (scrape_tge_data e date_str mr) = []
   \<or> (\<exists>es. snd (scrape_tge_data e date_str mr) = SessionNew # HeadersUpdate # es
          \<and> SessionClose \<notin> set es \<and> SessionNew \<notin> set es)"
proof (cases "resolve_date e date_str")
  case (Inl x)
  then show ?thesis by (simp add: scrape_raises)
next
  case (Inr d)
  let ?w0 = "\<lparr>trace = [SessionNew, HeadersUpdate], requests = 0\<rparr>"
  have "requests ?w0 = 0" by simp
  from attempts_trace [OF this, of "http e" "request_url d" mr]
  show ?thesis by (auto simp: scrape_unfold [OF Inr])
qed


lemma resolve_given: "resolve_date e (Some d) = Inr d"
  by (simp add: resolve_date_def)



lemma page_rows_no_body: "tbody t = None \<Longrightarrow> page_rows t = []"
  by (simp add: page_rows_def)

subsection \<open>C2: transport failures, then success\<close>




subsection \<open>C3: the transport fails every time\<close>

text \<open>
  C3. With \<^verbatim>\<open>max_retries = 3\<close> and a transport failure on each of the three requests,
  \<^verbatim>\<open>scrape_tge_data\<close> makes exactly three requests (with sleeps of 2 and 4 seconds between
  them) and returns \<^verbatim>\<open>None\<close>; it returns, so no exception reaches the caller.
\<close>

theorem persistent_transport_failure:
  assumes date: "resolve_date e date_str = Inr d"
    and fails: "\<forall>i<3. http e (request_url d) i = RequestException"
  shows "scrape_tge_data e date_str 3
           = (Inr None,
              [SessionNew, HeadersUpdate,
               SessionGet (request_url d),
               Sleep 2, SessionGet (request_url d),
               Sleep 4, SessionGet (request_url d)])
         \<and> length (gets_of (snd (scrape_tge_data e date_str 3))) = 3"
proof -
  from fails have "\<forall>i. int i < 3 \<and> i \<le> 33 \<longrightarrow> retryable (http e (request_url d) i)"
    by (simp add: retryable_def)
  from scrape_exhausted [OF date this]
  have "scrape_tge_data e date_str 3
      = (Inr None, [SessionNew, HeadersUpdate] @ calls (request_url d) 0 (min (nat 3) 34))"
    by simp
  moreover have "min (nat 3) 34 = Suc 2" by simp
  moreover have "[1..<Suc 2] = [1, 2]" by (simp add: upt_rec)
  ultimately have run: "scrape_tge_data e date_str 3
      = (Inr None,
         [SessionNew, HeadersUpdate, SessionGet (request_url d),
          Sleep 2, SessionGet (request_url d), Sleep 4, SessionGet (request_url d)])"
    by (simp only: calls_from_0) simp
  then show ?thesis by simp
qed

theorem persistent_transport_failure_witness:
  "resolve_date (flaky_env 5) (Some ''04-11-2026'') = Inr ''04-11-2026''
   \<and> http (flaky_env 5) (request_url ''04-11-2026'') 0 = RequestException
   \<and> http (flaky_env 5) (request_url ''04-11-2026'') 1 = RequestException
   \<and> http (flaky_env 5) (request_url ''04-11-2026'') 2 = RequestException
   \<and> scrape_tge_data (flaky_env 5) (Some ''04-11-2026'') 3
       = (Inr None,
          [SessionNew, HeadersUpdate,
           SessionGet (request_url ''04-11-2026''),
           Sleep 2, SessionGet (request_url ''04-11-2026''),
           Sleep 4, SessionGet (request_url ''04-11-2026'')])"
proof -
  have f0: "http (flaky_env 5) (request_url ''04-11-2026'') 0 = RequestException"
    and f1: "http (flaky_env 5) (request_url ''04-11-2026'') 1 = RequestException"
    and f2: "http (flaky_env 5) (request_url ''04-11-2026'') 2 = RequestException"
    by (simp_all add: flaky_env_def)
  have f: "\<forall>i<3. http (flaky_env 5) (request_url ''04-11-2026'') i = RequestException"
    by (simp add: flaky_env_def)
  note run = persistent_transport_failure [OF resolve_given f, THEN conjunct1]
  show ?thesis by (intro conjI resolve_given f0 f1 f2 run)
qed

subsection \<open>C10: no attempts allowed\<close>

text \<open>
  C10. With \<^verbatim>\<open>max_retries \<le> 0\<close> the loop body never runs: the run contains no request and
  no sleep, and once the date is known (it always is when the caller passes one) the function
  returns \<^verbatim>\<open>None\<close> after creating the session.
\<close>

theorem no_attempt_without_retries:
  assumes "max_retries \<le> 0"
  shows "gets_of (snd (scrape_tge_data e date_str max_retries)) = []
         \<and> sleeps_of (snd (scrape_tge_data e date_str max_retries)) = []
         \<and> (\<forall>d. resolve_date e date_str = Inr d
               \<longrightarrow> scrape_tge_data e date_str max_retries = (Inr None, [SessionNew, HeadersUpdate]))"
proof -
  have run: "scrape_tge_data e date_str max_retries = (Inr None, [SessionNew, HeadersUpdate])"
    if "resolve_date e date_str = Inr d" for d
    using assms by (simp add: scrape_unfold [OF that] attempts_done)
  show ?thesis
  proof (cases "resolve_date e date_str")
    case (Inl x)
    then show ?thesis by (simp add: scrape_raises)
  next
    case (Inr d)
    then show ?thesis by (simp add: run)
  qed
qed

theorem no_attempt_without_retries_witness:
  "(0::int) \<le> 0 \<and> (-2::int) \<le> 0
   \<and> resolve_date (flaky_env 0) (Some ''04-11-2026'') = Inr ''04-11-2026''
   \<and> scrape_tge_data (flaky_env 0) (Some ''04-11-2026'') 0 = (Inr None, [SessionNew, HeadersUpdate])
   \<and> scrape_tge_data (flaky_env 0) (Some ''01-01-2026'') (-2) = (Inr None, [SessionNew, HeadersUpdate])
   \<and> gets_of (snd (scrape_tge_data (flaky_env 0) (Some ''04-11-2026'') 0)) = []
   \<and> sleeps_of (snd (scrape_tge_data (flaky_env 0) (Some ''04-11-2026'') 0)) = []"
proof -
  have a: "(0::int) \<le> 0" and b: "(-2::int) \<le> 0" by simp_all
  note r1 = no_attempt_without_retries [OF a, of "flaky_env 0" "Some ''04-11-2026''"]
  note r2 = no_attempt_without_retries [OF b, of "flaky_env 0" "Some ''01-01-2026''"]
  note 1 = r1 [THEN conjunct2, THEN conjunct2, rule_format, OF resolve_given]
  note 2 = r2 [THEN conjunct2, THEN conjunct2, rule_format, OF resolve_given]
  note 3 = r1 [THEN conjunct1]
  note 4 = r1 [THEN conjunct2, THEN conjunct1]
  show ?thesis by (intro conjI a b resolve_given 1 2 3 4)
qed

subsection \<open>C4: a missing table, a missing body\<close>




subsection \<open>C7: the session\<close>

text \<open>
  C7, as stated, fails on the code. On the plainest successful run (the first request
  delivers the sample page) the calls made on the session are its creation, the header
  update and one request; it is not closed.
\<close>

theorem session_left_open_on_success:
  "scrape_tge_data (flaky_env 0) (Some ''04-11-2026'') 3
     = (Inr (Some \<lparr>columns = [''Instrument'', ''Typ instrumentu'', ''Fixing I - Kurs [PLN/MWh]''],
                   data = [[Some ''H01'', Some ''60'', Some ''410.00''],
                           [Some ''H02'', Some ''60'', Some []]]\<rparr>),
        [SessionNew, HeadersUpdate, SessionGet (request_url ''04-11-2026'')])
   \<and> SessionClose \<notin> set (snd (scrape_tge_data (flaky_env 0) (Some ''04-11-2026'') 3))"
proof -
  have p: "http (flaky_env 0) (request_url ''04-11-2026'') 0 = Page sample_page"
    by (simp add: flaky_env_def)
  have "scrape_tge_data (flaky_env 0) (Some ''04-11-2026'') 3
      = (Inr (Some \<lparr>columns = [''Instrument'', ''Typ instrumentu'', ''Fixing I - Kurs [PLN/MWh]''],
                    data = [[Some ''H01'', Some ''60'', Some ''410.00''],
                            [Some ''H02'', Some ''60'', Some []]]\<rparr>),
         [SessionNew, HeadersUpdate] @ calls (request_url ''04-11-2026'') 0 (Suc 0))"
    using resolve_given _ p sample_result by (rule scrape_retry_then_return) simp_all
  then have run: "scrape_tge_data (flaky_env 0) (Some ''04-11-2026'') 3
      = (Inr (Some \<lparr>columns = [''Instrument'', ''Typ instrumentu'', ''Fixing I - Kurs [PLN/MWh]''],
                    data = [[Some ''H01'', Some ''60'', Some ''410.00''],
                            [Some ''H02'', Some ''60'', Some []]]\<rparr>),
         [SessionNew, HeadersUpdate, SessionGet (request_url ''04-11-2026'')])"
    by (simp add: calls_step attempt_calls_def)
  then have "SessionClose \<notin> set (snd (scrape_tge_data (flaky_env 0) (Some ''04-11-2026'') 3))"
    by simp
  with run show ?thesis by (intro conjI)
qed

text \<open>
  C7, amended. On every execution path \<^verbatim>\<open>scrape_tge_data\<close> never closes the session: no
  run contains a call of \<^verbatim>\<open>close\<close>. Once the date is known the run starts with the creation of
  the session and the header update, and creates no second session.
\<close>

theorem session_never_closed:
  "SessionClose \<notin> set (snd (scrape_tge_data e date_str max_retries))
   \<and> (\<forall>d. resolve_date e date_str = Inr d \<longrightarrow>
         (\<exists>es. snd (scrape_tge_data e date_str max_retries) = SessionNew # HeadersUpdate # es
               \<and> SessionNew \<notin> set es \<and> SessionClose \<notin> set es))"
proof -
  from scrape_trace [of e date_str max_retries]
  have 1: "SessionClose \<notin> set (snd (scrape_tge_data e date_str max_retries))" by auto
  have 2: "\<exists>es. snd (scrape_tge_data e date_str max_retries) = SessionNew # HeadersUpdate # es
               \<and> SessionNew \<notin> set es \<and> SessionClose \<notin> set es"
    if "resolve_date e date_str = Inr d" for d
  proof -
    let ?w0 = "\<lparr>trace = [SessionNew, HeadersUpdate], requests = 0\<rparr>"
    have "requests ?w0 = 0" by simp
    from attempts_trace [OF this, of "http e" "request_url d" max_retries]
    show ?thesis by (auto simp: scrape_unfold [OF that])
  qed
  from 1 2 show ?thesis by blast
qed

theorem session_never_closed_witness:
  "resolve_date (flaky_env 5) (Some ''04-11-2026'') = Inr ''04-11-2026''
   \<and> SessionClose \<notin> set (snd (scrape_tge_data (flaky_env 5) (Some ''04-11-2026'') 3))
   \<and> (\<exists>es. snd (scrape_tge_data (flaky_env 5) (Some ''04-11-2026'') 3)
             = SessionNew # HeadersUpdate # es
           \<and> SessionNew \<notin> set es \<and> SessionClose \<notin> set es)"
proof -
  note T = session_never_closed [of "flaky_env 5" "Some ''04-11-2026''" 3]
  note 1 = T [THEN conjunct1]
  note 2 = T [THEN conjunct2, rule_format, OF resolve_given]
  show ?thesis by (intro conjI resolve_given 1 2)
qed


section \<open>The date\<close>

subsection \<open>Decimal digits\<close>

lemma str_nat_small: "n < 10 \<Longrightarrow> str_nat n = [digit_char n]"
  by (subst str_nat.simps) simp

lemma str_nat_big: "10 \<le> n \<Longrightarrow> str_nat n = str_nat (n div 10) @ [digit_char (n mod 10)]"
  by (subst str_nat.simps) simp

lemma is_digit_digit_char: "d < 10 \<Longrightarrow> is_digit (digit_char d)"
  by (simp add: is_digit_def digit_char_def)

lemma digit_val_digit_char: "d < 10 \<Longrightarrow> digit_val (digit_char d) = d"
  by (simp add: digit_val_def digit_char_def)

lemma digits_str_nat: "list_all is_digit (str_nat n)"
proof (induction n rule: str_nat.induct)
  case (1 n)
  show ?case
  proof (cases "n < 10")
    case True
    then show ?thesis by (simp add: str_nat_small is_digit_digit_char)
  next
    case False
    with "1.IH" show ?thesis by (simp add: str_nat_big is_digit_digit_char)
  qed
qed

lemma digits_val_snoc: "digits_val (xs @ [c]) = 10 * digits_val xs + digit_val c"
  by (simp add: digits_val_def)

lemma digits_val_str_nat: "digits_val (str_nat n) = n"
proof (induction n rule: str_nat.induct)
  case (1 n)
  show ?case
  proof (cases "n < 10")
    case True
    then show ?thesis by (simp add: str_nat_small digits_val_def digit_val_digit_char)
  next
    case False
    with "1.IH" show ?thesis by (simp add: str_nat_big digits_val_snoc digit_val_digit_char)
  qed
qed

lemma length_str_nat_1: "n < 10 \<Longrightarrow> length (str_nat n) = 1"
  by (simp add: str_nat_small)

lemma length_str_nat_step:
  assumes "10 \<le> n" and "length (str_nat (n div 10)) = k"
  shows "length (str_nat n) = Suc k"
  using assms(2) by (simp only: str_nat_big [OF assms(1)]) simp

lemma length_str_nat_2: "10 \<le> n \<Longrightarrow> n < 100 \<Longrightarrow> length (str_nat n) = 2"
  using length_str_nat_step [of n 1] length_str_nat_1 [of "n div 10"] by simp

lemma length_str_nat_3: "100 \<le> n \<Longrightarrow> n < 1000 \<Longrightarrow> length (str_nat n) = 3"
  using length_str_nat_step [of n 2] length_str_nat_2 [of "n div 10"] by simp

lemma length_str_nat_4: "1000 \<le> n \<Longrightarrow> n < 10000 \<Longrightarrow> length (str_nat n) = 4"
  using length_str_nat_step [of n 3] length_str_nat_3 [of "n div 10"] by simp

lemma pad2_props:
  assumes "n < 100"
  shows "length (pad2 n) = 2" and "list_all is_digit (pad2 n)" and "digits_val (pad2 n) = n"
proof -
  have z: "is_digit CHR ''0''" "digit_val CHR ''0'' = 0"
    by (simp_all add: is_digit_def digit_val_def)
  show "length (pad2 n) = 2"
    using assms by (simp add: pad2_def length_str_nat_1 length_str_nat_2)
  show "list_all is_digit (pad2 n)"
    by (simp add: pad2_def digits_str_nat z)
  have "digits_val (CHR ''0'' # str_nat n) = digits_val (str_nat n)"
    by (simp add: digits_val_def z)
  then show "digits_val (pad2 n) = n"
    by (simp add: pad2_def digits_val_str_nat)
qed

lemma ddmmyyyy_parts:
  assumes "length a = 2" and "length b = 2" and "length c = 4"
  shows "length (a @ ''-'' @ b @ ''-'' @ c) = 10"
    and "(a @ ''-'' @ b @ ''-'' @ c) ! 2 = CHR ''-''"
    and "(a @ ''-'' @ b @ ''-'' @ c) ! 5 = CHR ''-''"
    and "take 2 (a @ ''-'' @ b @ ''-'' @ c) = a"
    and "take 2 (drop 3 (a @ ''-'' @ b @ ''-'' @ c)) = b"
    and "drop 6 (a @ ''-'' @ b @ ''-'' @ c) = c"
  using assms by (simp_all add: nth_append)

lemma strftime_dmy_valid:
  assumes "four_digit_time t"
  shows "is_ddmmyyyy (strftime_dmy t)"
proof -
  from assms have v: "valid_date (year t) (month t) (day t)" and y: "1000 \<le> year t"
    by (simp_all add: four_digit_time_def valid_datetime_def)
  from v have y2: "year t < 10000" and m: "month t < 100" by (simp_all add: valid_date_def)
  from v have "day t \<le> 31" by (simp add: valid_date_def days_in_month_def split: if_splits)
  then have d: "day t < 100" by simp
  note P = ddmmyyyy_parts [OF pad2_props(1) [OF d] pad2_props(1) [OF m] length_str_nat_4 [OF y y2]]
  show ?thesis
    unfolding is_ddmmyyyy_def strftime_dmy_def
    by (simp only: P pad2_props(2,3) [OF d] pad2_props(2,3) [OF m] digits_str_nat
          digits_val_str_nat v simp_thms)
qed

subsection \<open>The last Sunday\<close>

lemma weekday_less: "weekday y m d < 7"
  by (simp add: weekday_def)

lemma last_sunday_cases:
  "py_max (map last (weeks_of ((length (month_days 0 31) + 6) div 7) (month_days 0 31))) = Inr 28"
  "py_max (map last (weeks_of ((length (month_days 1 31) + 6) div 7) (month_days 1 31))) = Inr 27"
  "py_max (map last (weeks_of ((length (month_days 2 31) + 6) div 7) (month_days 2 31))) = Inr 26"
  "py_max (map last (weeks_of ((length (month_days 3 31) + 6) div 7) (month_days 3 31))) = Inr 25"
  "py_max (map last (weeks_of ((length (month_days 4 31) + 6) div 7) (month_days 4 31))) = Inr 31"
  "py_max (map last (weeks_of ((length (month_days 5 31) + 6) div 7) (month_days 5 31))) = Inr 30"
  "py_max (map last (weeks_of ((length (month_days 6 31) + 6) div 7) (month_days 6 31))) = Inr 29"
  by code_simp+

lemma last_sunday_unfold:
  assumes "days_in_month y m = 31"
  shows "last_sunday y m
      = py_max (map last (weeks_of ((length (month_days (weekday y m 1) 31) + 6) div 7)
                                   (month_days (weekday y m 1) 31)))"
  by (simp add: last_sunday_def monthcalendar_def itermonthdays_def monthrange_def assms Let_def)

lemma last_sunday_31:
  assumes "days_in_month y m = 31"
  shows "\<exists>d. last_sunday y m = Inr d \<and> 25 \<le> d \<and> d \<le> 31"
proof -
  let ?w = "weekday y m 1"
  note eq = last_sunday_unfold [OF assms]
  have "?w < 7" by (rule weekday_less)
  then consider "?w = 0" | "?w = 1" | "?w = 2" | "?w = 3" | "?w = 4" | "?w = 5" | "?w = 6"
    by linarith
  then show ?thesis
    by cases (simp_all only: eq last_sunday_cases, simp_all)
qed

subsection \<open>The offset computed by hand\<close>

lemma days_in_month_pos: "1 \<le> days_in_month y m"
  by (simp add: days_in_month_def)

lemma next_day_valid:
  assumes "valid_date y m d" and "y \<le> 9998"
  shows "\<exists>y' m' d'. next_day (y, m, d) = Inr (y', m', d') \<and> valid_date y' m' d' \<and> y \<le> y'"
proof -
  from assms(1) have b: "1 \<le> y" "1 \<le> m" "m \<le> 12" "1 \<le> d" "d \<le> days_in_month y m"
    by (simp_all add: valid_date_def)
  consider "d < days_in_month y m" | "\<not> d < days_in_month y m" "m < 12"
    | "\<not> d < days_in_month y m" "\<not> m < 12"
    by blast
  then show ?thesis
  proof cases
    case 1
    with b assms(2) show ?thesis by (simp add: next_day_def valid_date_def)
  next
    case 2
    with b assms(2) days_in_month_pos [of y "m + 1"] show ?thesis
      by (simp add: next_day_def valid_date_def)
  next
    case 3
    with b assms(2) days_in_month_pos [of "y + 1" 1] show ?thesis
      by (simp add: next_day_def valid_date_def)
  qed
qed

lemma add_hours_valid:
  assumes "valid_datetime u" and "year u \<le> 9998" and "k \<le> 24"
  shows "\<exists>t. add_hours u k = Inr t \<and> valid_datetime t \<and> year u \<le> year t"
proof (cases "hour u + k < 24")
  case True
  with assms(1) show ?thesis by (simp add: add_hours_def valid_datetime_def)
next
  case False
  from assms(1) have v: "valid_date (year u) (month u) (day u)" and h: "hour u < 24"
    by (simp_all add: valid_datetime_def)
  from next_day_valid [OF v assms(2)] obtain y' m' d'
    where n: "next_day (year u, month u, day u) = Inr (y', m', d')"
      and v': "valid_date y' m' d'" and le: "year u \<le> y'"
    by blast
  from h assms(3) have "hour u + k - 24 < 24" by simp
  with False n v' le assms(1) show ?thesis
    by (simp add: add_hours_def valid_datetime_def)
qed

lemma mk_datetime_valid:
  assumes "valid_date y m d"
  shows "\<exists>t. mk_datetime y m d 1 0 0 = Inr t"
  using assms by (simp add: mk_datetime_def valid_datetime_def)

lemma manual_polish_time_valid:
  assumes "four_digit_time u" and "year u \<le> 9998"
  shows "\<exists>t. manual_polish_time u = Inr t \<and> four_digit_time t"
proof -
  from assms(1) have v: "valid_datetime u" and y: "1000 \<le> year u"
    by (simp_all add: four_digit_time_def)
  have m3: "days_in_month (year u) 3 = 31" and m10: "days_in_month (year u) 10 = 31"
    by (simp_all add: days_in_month_def)
  from last_sunday_31 [OF m3] obtain a
    where a: "last_sunday (year u) 3 = Inr a" "25 \<le> a" "a \<le> 31" by blast
  from last_sunday_31 [OF m10] obtain b
    where b: "last_sunday (year u) 10 = Inr b" "25 \<le> b" "b \<le> 31" by blast
  from a y assms(2) m3 have "valid_date (year u) 3 a" by (simp add: valid_date_def)
  from mk_datetime_valid [OF this] obtain s where s: "mk_datetime (year u) 3 a 1 0 0 = Inr s"
    by blast
  from b y assms(2) m10 have "valid_date (year u) 10 b" by (simp add: valid_date_def)
  from mk_datetime_valid [OF this] obtain e where e: "mk_datetime (year u) 10 b 1 0 0 = Inr e"
    by blast
  have k: "(if dt_le s u \<and> dt_less u e then 2 else 1) \<le> (24::nat)" by simp
  from add_hours_valid [OF v assms(2) k] obtain t
    where t: "add_hours u (if dt_le s u \<and> dt_less u e then 2 else 1) = Inr t"
      "valid_datetime t" "year u \<le> year t"
    by blast
  from t y have "four_digit_time t" by (simp add: four_digit_time_def)
  moreover have "manual_polish_time u = Inr t"
    unfolding manual_polish_time_def by (simp only: a(1) b(1) s e t(1) sum.case)
  ultimately show ?thesis by blast
qed

text \<open>
  In the environments the date is meant for, \<^verbatim>\<open>get_polish_date\<close> returns a string of the form
  DD-MM-YYYY that names a day of the calendar.
\<close>

lemma date_env_ok_cases:
  assumes "date_env_ok e"
  shows "(\<exists>t. zoneinfo_now e = Inr t \<and> four_digit_time t)
       \<or> (\<exists>x t. zoneinfo_now e = Inl x \<and> pytz_now e = Inr t \<and> four_digit_time t)
       \<or> (\<exists>x. zoneinfo_now e = Inl x \<and> pytz_now e = Inl ImportError
              \<and> four_digit_time (utcnow e) \<and> year (utcnow e) \<le> 9998)"
  using assms by (auto simp: date_env_ok_def split: sum.splits)

lemma get_polish_date_valid:
  assumes "date_env_ok e"
  shows "\<exists>s. get_polish_date e = Inr s \<and> is_ddmmyyyy s"
proof -
  from date_env_ok_cases [OF assms]
  consider t where "zoneinfo_now e = Inr t" "four_digit_time t"
    | x t where "zoneinfo_now e = Inl x" "pytz_now e = Inr t" "four_digit_time t"
    | x where "zoneinfo_now e = Inl x" "pytz_now e = Inl ImportError"
        "four_digit_time (utcnow e)" "year (utcnow e) \<le> 9998"
    by blast
  then show ?thesis
  proof cases
    case 1
    then show ?thesis by (simp add: get_polish_date_def strftime_dmy_valid)
  next
    case 2
    then show ?thesis by (simp add: get_polish_date_def strftime_dmy_valid)
  next
    case 3
    from manual_polish_time_valid [OF 3(3,4)] obtain t
      where "manual_polish_time (utcnow e) = Inr t" "four_digit_time t" by blast
    with 3 show ?thesis by (simp add: get_polish_date_def strftime_dmy_valid)
  qed
qed

lemma noon_ok: "four_digit_time noon" "four_digit_time (noon\<lparr>hour := 13\<rparr>)" "year noon \<le> 9998"
  by (simp_all add: four_digit_time_def valid_datetime_def valid_date_def noon_def days_in_month_def)

lemma weekday_2026: "weekday 2026 3 1 = 6" "weekday 2026 10 1 = 3"
  by (simp_all add: weekday_def ymd2ord_def days_before_year_def days_before_month_def
        days_in_month_def is_leap_def upt_rec)

lemma last_sunday_2026: "last_sunday 2026 3 = Inr 29" "last_sunday 2026 10 = Inr 25"
proof -
  have m: "days_in_month 2026 3 = 31" "days_in_month 2026 10 = 31"
    by (simp_all add: days_in_month_def)
  show "last_sunday 2026 3 = Inr 29"
    by (simp only: last_sunday_unfold [OF m(1)] weekday_2026 last_sunday_cases)
  show "last_sunday 2026 10 = Inr 25"
    by (simp only: last_sunday_unfold [OF m(2)] weekday_2026 last_sunday_cases)
qed

lemma manual_polish_time_noon: "manual_polish_time noon = Inr (noon\<lparr>hour := 13\<rparr>)"
proof -
  have y: "year noon = 2026" by (simp add: noon_def)
  have s: "mk_datetime 2026 3 29 1 0 0
      = Inr \<lparr>year = 2026, month = 3, day = 29, hour = 1, minute = 0, second = 0, microsecond = 0\<rparr>"
    and e: "mk_datetime 2026 10 25 1 0 0
      = Inr \<lparr>year = 2026, month = 10, day = 25, hour = 1, minute = 0, second = 0, microsecond = 0\<rparr>"
    by (simp_all add: mk_datetime_def valid_datetime_def valid_date_def days_in_month_def)
  have c: "\<not> dt_less noon
      \<lparr>year = 2026, month = 10, day = 25, hour = 1, minute = 0, second = 0, microsecond = 0\<rparr>"
    by (simp add: dt_less_def dt_key_def noon_def)
  have a: "add_hours noon 1 = Inr (noon\<lparr>hour := 13\<rparr>)"
    by (simp add: add_hours_def noon_def)
  show ?thesis
    unfolding manual_polish_time_def y
    by (simp only: last_sunday_2026 s e c a sum.case simp_thms if_False)
qed

lemma get_polish_date_pytz_raises:
  assumes "zoneinfo_now e = Inl x" and "pytz_now e = Inl x'" and "x' \<noteq> ImportError"
  shows "get_polish_date e = Inl x'"
  using assms by (simp add: get_polish_date_def)

lemma get_polish_date_examples:
  "date_env_ok zoneinfo_env \<and> date_env_ok pytz_env \<and> date_env_ok (flaky_env 0)
   \<and> get_polish_date zoneinfo_env = Inr ''04-11-2026''
   \<and> get_polish_date pytz_env = Inr ''04-11-2026''
   \<and> get_polish_date (flaky_env 0) = Inr ''04-11-2026''
   \<and> is_ddmmyyyy ''04-11-2026''"
proof -
  have z: "date_env_ok zoneinfo_env" by (simp add: date_env_ok_def zoneinfo_env_def noon_ok)
  have p: "date_env_ok pytz_env" by (simp add: date_env_ok_def pytz_env_def noon_ok)
  have f: "date_env_ok (flaky_env 0)" by (simp add: date_env_ok_def flaky_env_def noon_ok)
  have s: "strftime_dmy (noon\<lparr>hour := 13\<rparr>) = ''04-11-2026''" by code_simp
  have 1: "get_polish_date zoneinfo_env = Inr ''04-11-2026''"
    by (simp add: get_polish_date_def zoneinfo_env_def s)
  have 2: "get_polish_date pytz_env = Inr ''04-11-2026''"
    by (simp add: get_polish_date_def pytz_env_def s)
  have 3: "get_polish_date (flaky_env 0) = Inr ''04-11-2026''"
    by (simp add: get_polish_date_def flaky_env_def manual_polish_time_noon s)
  from get_polish_date_valid [OF f] 3 have 4: "is_ddmmyyyy ''04-11-2026''" by simp
  show ?thesis by (intro conjI z p f 1 2 3 4)
qed

subsection \<open>C8: the date never fails\<close>

text \<open>
  C8 holds in the environments of the lemma above, and it is the contract the three-step
  fallback aims at; the code misses one case. The handler around zoneinfo (line 16) catches
  every exception, the handler around pytz (line 21) only \<^verbatim>\<open>ImportError\<close>. When zoneinfo is
  unusable and pytz is installed but raises on its own (its zone files are missing), the
  exception leaves \<^verbatim>\<open>get_polish_date\<close>, and \<^verbatim>\<open>scrape_tge_data\<close> when no date was passed,
  although the computation by hand would have given the date.
\<close>

theorem pytz_failure_leaves_get_polish_date:
  "get_polish_date broken_pytz_env = Inl LibraryError
   \<and> scrape_tge_data broken_pytz_env None 3 = (Inl LibraryError, [])
   \<and> manual_polish_time (utcnow broken_pytz_env) = Inr (noon\<lparr>hour := 13\<rparr>)"
proof -
  have z: "zoneinfo_now broken_pytz_env = Inl ImportError"
    and p: "pytz_now broken_pytz_env = Inl LibraryError"
    and u: "utcnow broken_pytz_env = noon"
    by (simp_all add: broken_pytz_env_def)
  have 1: "get_polish_date broken_pytz_env = Inl LibraryError"
    using z p by (rule get_polish_date_pytz_raises) simp
  then have "resolve_date broken_pytz_env None = Inl LibraryError"
    by (simp add: resolve_date_def)
  then have 2: "scrape_tge_data broken_pytz_env None 3 = (Inl LibraryError, [])"
    by (rule scrape_raises)
  have 3: "manual_polish_time (utcnow broken_pytz_env) = Inr (noon\<lparr>hour := 13\<rparr>)"
    by (simp only: u manual_polish_time_noon)
  show ?thesis by (intro conjI 1 2 3)
qed

end
